theory Spec2Isabelle
  imports Main
begin

section \<open>The orchestrator of src/tui.ts: data model\<close>

text \<open>
  The class \<^verbatim>\<open>TUI\<close> of \<^verbatim>\<open>src/tui.ts\<close> keeps a baseline of what it last wrote
  (\<^verbatim>\<open>previousLines\<close>, \<^verbatim>\<open>previousWidth\<close>, \<^verbatim>\<open>cursorRow\<close>), the focused component, a
  pending-render flag and the optional modal state. Components are JavaScript objects
  compared by reference; they are modelled by an arbitrary type \<open>'c\<close> of component
  identities, and \<^verbatim>\<open>Component | null\<close> by \<open>'c option\<close>. \<open>children\<close> is the field
  inherited from \<^verbatim>\<open>Container\<close>. Every \<^verbatim>\<open>terminal.write\<close> is
  recorded, in order, in the field \<open>written\<close>.
\<close>

datatype error = LineTooWide nat | RangeError

text \<open>
  \<^verbatim>\<open>ModalOptions\<close>: both fields are optional in the source; \<open>None\<close> is an absent field.
\<close>

record modal_options =
  optWidth :: "int option"
  dimBackground :: "bool option"

record 'c modal_state =
  component :: 'c
  options :: modal_options
  previousFocus :: "'c option"

record 'c tui =
  children :: "'c list"
  previousLines :: "string list"
  previousWidth :: int
  focusedComponent :: "'c option"
  renderRequested :: bool
  cursorRow :: int
  modalState :: "'c modal_state option"
  written :: "string list"

text \<open>The field initialisers of the class; nothing has been written yet.\<close>

definition initial :: "'c tui" where
  "initial = \<lparr> children = [], previousLines = [], previousWidth = 0, focusedComponent = None,
               renderRequested = False, cursorRow = 0, modalState = None, written = [] \<rparr>"

section \<open>Control sequences\<close>

definition ESC :: char where "ESC = CHR 0x1B"

definition syncBegin :: string where "syncBegin = ESC # ''[?2026h''"
definition syncEnd :: string where "syncEnd = ESC # ''[?2026l''"
definition clearAll :: string where "clearAll = (ESC # ''[3J'') @ (ESC # ''[2J'') @ (ESC # ''[H'')"
definition clearLine :: string where "clearLine = ESC # ''[2K''"
definition CR :: string where "CR = [CHR 0x0D]"
definition CRLF :: string where "CRLF = [CHR 0x0D, CHR 0x0A]"

text \<open>Decimal rendering of a non-negative integer, as a template literal prints it.\<close>

definition digitChar :: "nat \<Rightarrow> char" where
  "digitChar d = ''0123456789'' ! (d mod 10)"

fun natToString :: "nat \<Rightarrow> string" where
  "natToString n = (if n < 10 then [digitChar n] else natToString (n div 10) @ [digitChar (n mod 10)])"

declare natToString.simps [simp del]

definition cursorDown :: "nat \<Rightarrow> string" where "cursorDown n = ESC # ''['' @ natToString n @ ''B''"
definition cursorUp :: "nat \<Rightarrow> string" where "cursorUp n = ESC # ''['' @ natToString n @ ''A''"

section \<open>Focus, modal and refresh operations\<close>

text \<open>
  \<^verbatim>\<open>requestRender\<close> schedules one render pass for the next tick unless one is pending.
  The scheduled callback is the operation \<open>tick\<close> further down.
\<close>

definition requestRender :: "'c tui \<Rightarrow> 'c tui" where
  "requestRender s = (if renderRequested s then s else s\<lparr>renderRequested := True\<rparr>)"

definition setFocus :: "'c option \<Rightarrow> 'c tui \<Rightarrow> 'c tui" where
  "setFocus c s = s\<lparr>focusedComponent := c\<rparr>"

text \<open>
  \<^verbatim>\<open>showModal\<close>: the stored options are \<^verbatim>\<open>{ dimBackground: true, ...options }\<close>, so an absent
  \<^verbatim>\<open>dimBackground\<close> becomes \<^verbatim>\<open>true\<close>; the previous focus is read before focus moves.
\<close>

definition showModal :: "'c \<Rightarrow> modal_options \<Rightarrow> 'c tui \<Rightarrow> 'c tui" where
  "showModal c opts s =
     requestRender (setFocus (Some c)
       (s\<lparr>modalState := Some \<lparr> component = c,
             options = opts\<lparr>dimBackground :=
                 (case dimBackground opts of None \<Rightarrow> Some True | Some b \<Rightarrow> Some b)\<rparr>,
             previousFocus = focusedComponent s \<rparr>\<rparr>))"

text \<open>
  \<^verbatim>\<open>hideModal\<close>: returns at once without a modal; otherwise drops the modal state, calls
  \<^verbatim>\<open>setFocus\<close> only under \<^verbatim>\<open>if (previousFocus)\<close>, and requests a render.
\<close>

definition hideModal :: "'c tui \<Rightarrow> 'c tui" where
  "hideModal s =
     (case modalState s of
        None \<Rightarrow> s
      | Some m \<Rightarrow>
          (let s1 = s\<lparr>modalState := None\<rparr>;
               s2 = (case previousFocus m of Some c \<Rightarrow> setFocus (Some c) s1 | None \<Rightarrow> s1)
           in requestRender s2))"

definition isModalVisible :: "'c tui \<Rightarrow> bool" where
  "isModalVisible s = (modalState s \<noteq> None)"

definition getModalComponent :: "'c tui \<Rightarrow> 'c option" where
  "getModalComponent s = (case modalState s of None \<Rightarrow> None | Some m \<Rightarrow> Some (component m))"

definition fullRefresh :: "'c tui \<Rightarrow> 'c tui" where
  "fullRefresh s =
     requestRender (s\<lparr>previousLines := [], previousWidth := 0, cursorRow := 0,
                      written := written s @ [clearAll]\<rparr>)"

section \<open>Container\<close>

definition addChild :: "'c \<Rightarrow> 'c tui \<Rightarrow> 'c tui" where
  "addChild c s = s\<lparr>children := children s @ [c]\<rparr>"

text \<open>\<^verbatim>\<open>indexOf\<close> and \<^verbatim>\<open>splice(index, 1)\<close> remove the first occurrence only.\<close>

definition removeChild :: "'c \<Rightarrow> 'c tui \<Rightarrow> 'c tui" where
  "removeChild c s = s\<lparr>children := remove1 c (children s)\<rparr>"

definition clear :: "'c tui \<Rightarrow> 'c tui" where
  "clear s = s\<lparr>children := []\<rparr>"

section \<open>The collaborators of a render pass\<close>

text \<open>
  What a render pass calls but \<^verbatim>\<open>src/tui.ts\<close> does not define is a parameter of the
  model: the \<^verbatim>\<open>render\<close> method of each component (its result depends on the component's
  state at the time of the pass), and \<^verbatim>\<open>visibleWidth\<close>, \<^verbatim>\<open>dimLine\<close>, \<^verbatim>\<open>padToWidth\<close>,
  \<^verbatim>\<open>overlayLineAt\<close> of \<^verbatim>\<open>utils.js\<close>.
\<close>

record 'c env =
  componentRender :: "'c \<Rightarrow> int \<Rightarrow> string list"
  visibleWidth :: "string \<Rightarrow> nat"
  dimLine :: "string \<Rightarrow> string"
  padToWidth :: "string \<Rightarrow> int \<Rightarrow> string"
  overlayLineAt :: "string \<Rightarrow> string \<Rightarrow> int \<Rightarrow> int \<Rightarrow> string"

text \<open>\<^verbatim>\<open>Container.render\<close>: the children's lines, in order.\<close>

definition render :: "'c env \<Rightarrow> int \<Rightarrow> 'c tui \<Rightarrow> string list" where
  "render e w s = concat (map (\<lambda>c. componentRender e c w) (children s))"

text \<open>\<^verbatim>\<open>String.prototype.includes\<close> and \<^verbatim>\<open>containsImage\<close>.\<close>

fun startsWith :: "string \<Rightarrow> string \<Rightarrow> bool" where
  "startsWith _ [] = True"
| "startsWith [] (_ # _) = False"
| "startsWith (c # cs) (p # ps) = (c = p \<and> startsWith cs ps)"

fun stringIncludes :: "string \<Rightarrow> string \<Rightarrow> bool" where
  "stringIncludes [] sub = (sub = [])"
| "stringIncludes (c # cs) sub = (startsWith (c # cs) sub \<or> stringIncludes cs sub)"

definition containsImage :: "string \<Rightarrow> bool" where
  "containsImage line = (stringIncludes line (ESC # ''_G'') \<or> stringIncludes line (ESC # '']1337;File=''))"

section \<open>Modal compositing\<close>

text \<open>
  One iteration of the overlay loop of \<^verbatim>\<open>compositeModal\<close>: row \<open>startRow + i\<close> of the
  result, when inside \<open>[0, terminalHeight)\<close>, becomes the overlay of modal line \<open>i\<close> on
  the dimmed background row.
\<close>

definition overlayRow ::
  "'c env \<Rightarrow> string list \<Rightarrow> string list \<Rightarrow> int \<Rightarrow> int \<Rightarrow> int \<Rightarrow> int \<Rightarrow>
   string list \<Rightarrow> nat \<Rightarrow> string list" where
  "overlayRow e dimmedBg paddedModalLines startRow startCol tw th result i =
     (let row = startRow + int i
      in if row \<ge> 0 \<and> row < th
         then result[nat row := overlayLineAt e (dimmedBg ! nat row) (paddedModalLines ! i) startCol tw]
         else result)"

text \<open>
  \<^verbatim>\<open>compositeModal\<close>. \<^verbatim>\<open>" ".repeat(terminalWidth)\<close> throws a RangeError for a negative
  count; it is evaluated only when the background is shorter than the terminal height.
  \<^verbatim>\<open>Math.floor(x / 2)\<close> on integers is \<open>x div 2\<close>.
\<close>

definition compositeModal ::
  "'c env \<Rightarrow> 'c modal_state option \<Rightarrow> string list \<Rightarrow> int \<Rightarrow> int \<Rightarrow> error + string list" where
  "compositeModal e ms background tw th =
     (case ms of
        None \<Rightarrow> Inr background
      | Some m \<Rightarrow>
          if int (length background) < th \<and> tw < 0 then Inl RangeError
          else
            (let paddedBg = background @
                   replicate (nat (th - int (length background))) (replicate (nat tw) CHR '' '');
                 dimmedBg = (if dimBackground (options m) \<noteq> Some False
                             then map (dimLine e) paddedBg else paddedBg);
                 modalWidth = (case optWidth (options m) of
                                 Some x \<Rightarrow> x | None \<Rightarrow> min 60 (tw - 10));
                 modalLines = componentRender e (component m) modalWidth;
                 paddedModalLines = map (\<lambda>line. padToWidth e line modalWidth) modalLines;
                 modalHeight = length paddedModalLines;
                 startRow = max 0 ((th - int modalHeight) div 2);
                 startCol = max 0 ((tw - modalWidth) div 2)
             in Inr (foldl (overlayRow e dimmedBg paddedModalLines startRow startCol tw th)
                       dimmedBg [0..<modalHeight])))"

section \<open>The render pass\<close>

text \<open>
  The loop shared by the first render and the two full resets: every line, separated by
  \<^verbatim>\<open>"\r\n"\<close>, appended to the buffer.
\<close>

fun emitLines :: "nat \<Rightarrow> string list \<Rightarrow> string \<Rightarrow> string" where
  "emitLines i [] buffer = buffer"
| "emitLines i (line # rest) buffer =
     emitLines (Suc i) rest ((if i > 0 then buffer @ CRLF else buffer) @ line)"

text \<open>
  The search for the first changed line: index by index up to the longer length, a missing
  line read as the empty string; \<open>-1\<close> when no line differs.
\<close>

definition lineAt :: "string list \<Rightarrow> nat \<Rightarrow> string" where
  "lineAt ls i = (if i < length ls then ls ! i else [])"

definition firstChangedStep :: "string list \<Rightarrow> string list \<Rightarrow> int \<Rightarrow> nat \<Rightarrow> int" where
  "firstChangedStep prev new firstChanged i =
     (if lineAt prev i \<noteq> lineAt new i
      then (if firstChanged = -1 then int i else firstChanged)
      else firstChanged)"

definition findFirstChanged :: "string list \<Rightarrow> string list \<Rightarrow> int" where
  "findFirstChanged prev new =
     foldl (firstChangedStep prev new) (-1) [0..<max (length new) (length prev)]"

text \<open>
  The loop of the incremental update over the lines from \<open>firstChanged\<close> on: it throws at
  the first line that is not an image line and is wider than the terminal. The crash log
  it writes before throwing is a file, not terminal output, and is not modelled.
\<close>

fun rewriteLines ::
  "(string \<Rightarrow> nat) \<Rightarrow> int \<Rightarrow> nat \<Rightarrow> nat \<Rightarrow> string list \<Rightarrow> string \<Rightarrow> error + string" where
  "rewriteLines vw w firstChanged i [] buffer = Inr buffer"
| "rewriteLines vw w firstChanged i (line # rest) buffer =
     (let buffer1 = (if i > firstChanged then buffer @ CRLF else buffer) @ clearLine
      in if \<not> containsImage line \<and> int (vw line) > w then Inl (LineTooWide i)
         else rewriteLines vw w firstChanged (Suc i) rest (buffer1 @ line))"

text \<open>The buffer of the incremental update (the part of \<^verbatim>\<open>doRender\<close> after the viewport check).\<close>

definition incrementalBuffer ::
  "(string \<Rightarrow> nat) \<Rightarrow> int \<Rightarrow> string list \<Rightarrow> string list \<Rightarrow> int \<Rightarrow> nat \<Rightarrow> error + string" where
  "incrementalBuffer vw w prev new cursor firstChanged =
     (let lineDiff = int firstChanged - cursor;
          buffer0 = syncBegin @
            (if lineDiff > 0 then cursorDown (nat lineDiff)
             else if lineDiff < 0 then cursorUp (nat (- lineDiff)) else []) @ CR
      in case rewriteLines vw w firstChanged firstChanged (drop firstChanged new) buffer0 of
           Inl err \<Rightarrow> Inl err
         | Inr buffer1 \<Rightarrow>
             Inr ((if length prev > length new
                   then buffer1 @ concat (replicate (length prev - length new) (CRLF @ clearLine))
                          @ cursorUp (length prev - length new)
                   else buffer1) @ syncEnd))"

text \<open>The write and the three assignments that end every committing branch.\<close>

definition commit :: "string \<Rightarrow> string list \<Rightarrow> int \<Rightarrow> 'c tui \<Rightarrow> 'c tui" where
  "commit buffer newLines w s =
     s\<lparr>written := written s @ [buffer], cursorRow := int (length newLines) - 1,
       previousLines := newLines, previousWidth := w\<rparr>"

definition firstRenderBuffer :: "string list \<Rightarrow> string" where
  "firstRenderBuffer newLines = emitLines 0 newLines syncBegin @ syncEnd"

definition fullResetBuffer :: "string list \<Rightarrow> string" where
  "fullResetBuffer newLines = emitLines 0 newLines (syncBegin @ clearAll) @ syncEnd"

text \<open>
  \<^verbatim>\<open>doRender\<close>, in two parts. \<open>computeFrame\<close> is its beginning: the lines of the component
  tree, composited with the modal when one is active. \<open>writeFrame\<close> is everything from the
  computation of \<^verbatim>\<open>widthChanged\<close> on. The result of a pass is the state after it and the
  error it threw, if any.
\<close>

definition computeFrame :: "'c env \<Rightarrow> int \<Rightarrow> int \<Rightarrow> 'c tui \<Rightarrow> error + string list" where
  "computeFrame e w h s =
     (let newLines = render e w s
      in if modalState s \<noteq> None then compositeModal e (modalState s) newLines w h
         else Inr newLines)"

definition writeFrame ::
  "(string \<Rightarrow> nat) \<Rightarrow> int \<Rightarrow> int \<Rightarrow> string list \<Rightarrow> 'c tui \<Rightarrow> error option \<times> 'c tui" where
  "writeFrame vw w h newLines s =
     (let widthChanged = (previousWidth s \<noteq> 0 \<and> previousWidth s \<noteq> w);
          lineCountChanged = (length (previousLines s) \<noteq> 0
                              \<and> length (previousLines s) \<noteq> length newLines)
      in if length (previousLines s) = 0
         then (None, commit (firstRenderBuffer newLines) newLines w s)
         else if widthChanged \<or> lineCountChanged
         then (None, commit (fullResetBuffer newLines) newLines w s)
         else
           (let firstChanged = findFirstChanged (previousLines s) newLines
            in if firstChanged = -1 then (None, s)
               else
                 (let viewportTop = cursorRow s - h + 1
                  in if firstChanged < viewportTop
                     then (None, commit (fullResetBuffer newLines) newLines w s)
                     else
                       (case incrementalBuffer vw w (previousLines s) newLines (cursorRow s)
                               (nat firstChanged) of
                          Inl err \<Rightarrow> (Some err, s)
                        | Inr buffer \<Rightarrow> (None, commit buffer newLines w s)))))"

definition doRender :: "'c env \<Rightarrow> int \<Rightarrow> int \<Rightarrow> 'c tui \<Rightarrow> error option \<times> 'c tui" where
  "doRender e w h s =
     (case computeFrame e w h s of
        Inl err \<Rightarrow> (Some err, s)
      | Inr newLines \<Rightarrow> writeFrame (visibleWidth e) w h newLines s)"

text \<open>The callback that \<^verbatim>\<open>requestRender\<close> hands to \<^verbatim>\<open>process.nextTick\<close>.\<close>

definition tick :: "'c env \<Rightarrow> int \<Rightarrow> int \<Rightarrow> 'c tui \<Rightarrow> error option \<times> 'c tui" where
  "tick e w h s = doRender e w h (s\<lparr>renderRequested := False\<rparr>)"

text \<open>The condition under which the incremental update throws at a line.\<close>

definition tooWide :: "(string \<Rightarrow> nat) \<Rightarrow> int \<Rightarrow> string \<Rightarrow> bool" where
  "tooWide vw w line = (\<not> containsImage line \<and> int (vw line) > w)"

section \<open>Events of an orchestrator's life\<close>

text \<open>
  The public operations, and the tick that runs a scheduled render pass with the
  collaborators and terminal dimensions of that moment. Without a pending request no
  callback was scheduled, and nothing runs. An error thrown by the pass is not caught by
  the orchestrator: the run ends there.
\<close>

datatype 'c event =
    AddChild 'c | RemoveChild 'c | Clear
  | SetFocus "'c option" | ShowModal 'c modal_options | HideModal
  | FullRefresh | RequestRender
  | Tick "'c env" int int

fun step :: "'c event \<Rightarrow> 'c tui \<Rightarrow> error option \<times> 'c tui" where
  "step (AddChild c) s = (None, addChild c s)"
| "step (RemoveChild c) s = (None, removeChild c s)"
| "step Clear s = (None, clear s)"
| "step (SetFocus c) s = (None, setFocus c s)"
| "step (ShowModal c opts) s = (None, showModal c opts s)"
| "step HideModal s = (None, hideModal s)"
| "step FullRefresh s = (None, fullRefresh s)"
| "step RequestRender s = (None, requestRender s)"
| "step (Tick e w h) s = (if renderRequested s then tick e w h s else (None, s))"

fun run :: "'c event list \<Rightarrow> 'c tui \<Rightarrow> error option \<times> 'c tui" where
  "run [] s = (None, s)"
| "run (ev # evs) s =
     (case step ev s of
        (Some err, s') \<Rightarrow> (Some err, s')
      | (None, s') \<Rightarrow> run evs s')"

text \<open>The relation between cursor and baseline that the render pass relies on.\<close>

definition baselineOK :: "'c tui \<Rightarrow> bool" where
  "baselineOK s = (previousLines s = [] \<or> cursorRow s = int (length (previousLines s)) - 1)"

section \<open>Examples\<close>

text \<open>
  Collaborators for the examples: every component renders the same plain lines (printable
  ASCII, no control codes), whose visible width is their number of characters; no dimming;
  padding with spaces; overlay by replacing the characters from the column on.
\<close>

definition linesEnv :: "string list \<Rightarrow> nat env" where
  "linesEnv ls =
     \<lparr> componentRender = (\<lambda>c w. ls), visibleWidth = length, dimLine = (\<lambda>line. line),
       padToWidth = (\<lambda>line w. line @ replicate (nat w - length line) CHR '' ''),
       overlayLineAt = (\<lambda>base ov col tw.
          take (nat col) base @ ov @ drop (nat col + length ov) base) \<rparr>"

text \<open>An orchestrator with one child, right after a committed render of \<open>prev\<close> at width \<open>w\<close>.\<close>

definition rendered :: "string list \<Rightarrow> int \<Rightarrow> nat tui" where
  "rendered prev w =
     \<lparr> children = [0], previousLines = prev, previousWidth = w, focusedComponent = None,
       renderRequested = False, cursorRow = int (length prev) - 1, modalState = None,
       written = [] \<rparr>"

text \<open>
  A modal of content width 10 whose component renders three lines of that width, shown
  without dimming.
\<close>

definition boxModal :: "nat modal_state" where
  "boxModal = \<lparr> component = 1,
                options = \<lparr> optWidth = Some 10, dimBackground = Some False \<rparr>,
                previousFocus = None \<rparr>"

definition boxEnv :: "nat env" where
  "boxEnv = linesEnv [''0123456789'', ''abcdefghij'', ''ABCDEFGHIJ'']"

text \<open>A plain line of 81 characters.\<close>

definition wideLine :: string where
  "wideLine = replicate 81 CHR ''w''"

section \<open>Facts about the pieces of the render pass\<close>

lemma emitLines_append: "emitLines i ls buffer = buffer @ emitLines i ls []"
proof (induction ls arbitrary: i buffer)
  case Nil
  show ?case by simp
next
  case (Cons l ls)
  let ?sep = "if i > 0 then CRLF else []"
  have a: "emitLines (Suc i) ls (buffer @ ?sep @ l) = (buffer @ ?sep @ l) @ emitLines (Suc i) ls []"
    by (rule Cons.IH)
  have b: "emitLines (Suc i) ls (?sep @ l) = (?sep @ l) @ emitLines (Suc i) ls []"
    by (rule Cons.IH)
  have c: "emitLines i (l # ls) buffer = emitLines (Suc i) ls (buffer @ ?sep @ l)"
    by simp
  have d: "emitLines i (l # ls) [] = emitLines (Suc i) ls (?sep @ l)"
    by simp
  show ?case by (simp only: c d a b append_assoc)
qed

lemma firstChanged_none:
  "(\<forall>i<n. lineAt prev i = lineAt new i) \<Longrightarrow> foldl (firstChangedStep prev new) (-1) [0..<n] = -1"
proof (induction n)
  case 0
  show ?case by simp
next
  case (Suc n)
  then have "foldl (firstChangedStep prev new) (-1) [0..<n] = -1" by simp
  moreover have "firstChangedStep prev new (-1) n = -1"
    using Suc.prems by (simp add: firstChangedStep_def)
  ultimately show ?case by simp
qed

lemma firstChanged_least:
  "i < n \<Longrightarrow> lineAt prev i \<noteq> lineAt new i \<Longrightarrow> (\<forall>j<i. lineAt prev j = lineAt new j)
   \<Longrightarrow> foldl (firstChangedStep prev new) (-1) [0..<n] = int i"
proof (induction n)
  case 0
  then show ?case by simp
next
  case (Suc n)
  have step: "foldl (firstChangedStep prev new) (-1) [0..<Suc n] =
      firstChangedStep prev new (foldl (firstChangedStep prev new) (-1) [0..<n]) n"
    by simp
  show ?case
  proof (cases "i < n")
    case True
    with Suc have "foldl (firstChangedStep prev new) (-1) [0..<n] = int i" by simp
    with step have "foldl (firstChangedStep prev new) (-1) [0..<Suc n] = firstChangedStep prev new (int i) n"
      by (simp only:)
    also have "\<dots> = int i" by (simp add: firstChangedStep_def)
    finally show ?thesis .
  next
    case False
    with Suc.prems have n: "i = n" by simp
    with Suc.prems have "foldl (firstChangedStep prev new) (-1) [0..<n] = -1"
      by (simp add: firstChanged_none)
    with step have "foldl (firstChangedStep prev new) (-1) [0..<Suc n] = firstChangedStep prev new (-1) n"
      by (simp only:)
    also have "\<dots> = int i" using n Suc.prems by (simp add: firstChangedStep_def)
    finally show ?thesis .
  qed
qed

lemma findFirstChanged_same: "findFirstChanged ls ls = -1"
  by (simp add: findFirstChanged_def firstChanged_none)

lemma findFirstChanged_least:
  "i < max (length new) (length prev) \<Longrightarrow> lineAt prev i \<noteq> lineAt new i
   \<Longrightarrow> (\<forall>j<i. lineAt prev j = lineAt new j) \<Longrightarrow> findFirstChanged prev new = int i"
  unfolding findFirstChanged_def by (rule firstChanged_least)

lemma writeFrame_first:
  "previousLines s = [] \<Longrightarrow> writeFrame vw w h newLines s = (None, commit (firstRenderBuffer newLines) newLines w s)"
  by (simp add: writeFrame_def)

lemma writeFrame_lineCountChanged:
  "previousLines s \<noteq> [] \<Longrightarrow> length (previousLines s) \<noteq> length newLines
   \<Longrightarrow> writeFrame vw w h newLines s = (None, commit (fullResetBuffer newLines) newLines w s)"
  by (simp add: writeFrame_def)

lemma writeFrame_widthChanged:
  "previousLines s \<noteq> [] \<Longrightarrow> previousWidth s \<noteq> 0 \<Longrightarrow> previousWidth s \<noteq> w
   \<Longrightarrow> writeFrame vw w h newLines s = (None, commit (fullResetBuffer newLines) newLines w s)"
  by (simp add: writeFrame_def)

lemma writeFrame_unchanged:
  "previousLines s \<noteq> [] \<Longrightarrow> previousWidth s = w
   \<Longrightarrow> writeFrame vw w h (previousLines s) s = (None, s)"
  by (simp add: writeFrame_def findFirstChanged_same)

lemma writeFrame_aboveViewport:
  "previousLines s \<noteq> [] \<Longrightarrow> findFirstChanged (previousLines s) newLines \<noteq> -1
   \<Longrightarrow> findFirstChanged (previousLines s) newLines < cursorRow s - h + 1
   \<Longrightarrow> writeFrame vw w h newLines s = (None, commit (fullResetBuffer newLines) newLines w s)"
  by (simp add: writeFrame_def Let_def)

lemma writeFrame_incremental:
  "previousLines s \<noteq> [] \<Longrightarrow> previousWidth s = 0 \<or> previousWidth s = w
   \<Longrightarrow> length (previousLines s) = length newLines
   \<Longrightarrow> findFirstChanged (previousLines s) newLines = int fc
   \<Longrightarrow> \<not> int fc < cursorRow s - h + 1
   \<Longrightarrow> writeFrame vw w h newLines s =
       (case incrementalBuffer vw w (previousLines s) newLines (cursorRow s) fc of
          Inl err \<Rightarrow> (Some err, s)
        | Inr buffer \<Rightarrow> (None, commit buffer newLines w s))"
  by (auto simp add: writeFrame_def Let_def)


lemma rewriteLines_throws:
  "k < length ls \<Longrightarrow> tooWide vw w (ls ! k) \<Longrightarrow> (\<forall>j<k. \<not> tooWide vw w (ls ! j))
   \<Longrightarrow> rewriteLines vw w fc i ls buffer = Inl (LineTooWide (i + k))"
proof (induction ls arbitrary: i k buffer)
  case Nil
  then show ?case by simp
next
  case (Cons l ls)
  show ?case
  proof (cases k)
    case 0
    with Cons.prems show ?thesis by (simp add: tooWide_def Let_def)
  next
    case (Suc k')
    with Cons.prems have "\<not> tooWide vw w l" by auto
    moreover have "rewriteLines vw w fc (Suc i) ls b = Inl (LineTooWide (Suc i + k'))" for b
      using Cons.prems Suc by (intro Cons.IH) auto
    ultimately show ?thesis using Suc by (simp add: tooWide_def Let_def)
  qed
qed

lemma rewriteLines_ok:
  "(\<forall>l\<in>set ls. \<not> tooWide vw w l) \<Longrightarrow> \<exists>b. rewriteLines vw w fc i ls buffer = Inr b"
  by (induction ls arbitrary: i buffer) (auto simp add: tooWide_def Let_def)

lemma fullResetBuffer_shape:
  "fullResetBuffer newLines = syncBegin @ clearAll @ emitLines 0 newLines [] @ syncEnd"
  unfolding fullResetBuffer_def by (subst emitLines_append) simp


lemma lineAt_nth: "i < length ls \<Longrightarrow> lineAt ls i = ls ! i"
  by (simp add: lineAt_def)

lemma lineAt_differ_bound: "lineAt prev i \<noteq> lineAt new i \<Longrightarrow> i < max (length new) (length prev)"
  by (auto simp add: lineAt_def split: if_splits)

lemma startsWith_set: "startsWith s sub \<Longrightarrow> set sub \<subseteq> set s"
  by (induction s sub rule: startsWith.induct) auto

lemma stringIncludes_set: "stringIncludes s sub \<Longrightarrow> set sub \<subseteq> set s"
proof (induction s)
  case Nil
  then show ?case by simp
next
  case (Cons c cs)
  then show ?case using startsWith_set [of "c # cs" sub] by auto
qed

lemma containsImage_ESC: "containsImage line \<Longrightarrow> ESC \<in> set line"
  unfolding containsImage_def using stringIncludes_set by fastforce

lemma wideLine_length: "length wideLine = 81"
  by (simp add: wideLine_def)

lemma wideLine_not_short: "length l < 81 \<Longrightarrow> wideLine \<noteq> l"
  using wideLine_length by auto

lemma wideLine_no_image: "\<not> containsImage wideLine"
proof -
  have "ESC \<notin> set wideLine" by (simp add: wideLine_def ESC_def)
  then show ?thesis using containsImage_ESC by blast
qed

lemma wideLine_neq: "wideLine \<noteq> ''b''" "''b'' \<noteq> wideLine" "wideLine \<noteq> ''c''" "''c'' \<noteq> wideLine"
  using wideLine_not_short [of "''b''"] wideLine_not_short [of "''c''"] by auto

lemmas wideLine_facts = wideLine_length wideLine_no_image wideLine_neq

lemmas ctl_defs = syncBegin_def syncEnd_def clearAll_def clearLine_def CR_def CRLF_def
  cursorUp_def cursorDown_def digitChar_def natToString.simps ESC_def

lemmas ex_defs = linesEnv_def rendered_def computeFrame_def render_def

section \<open>The baseline invariant\<close>

lemma baselineOK_initial: "baselineOK initial"
  by (simp add: baselineOK_def initial_def)

lemma baselineOK_commit: "baselineOK (commit buffer newLines w s)"
  by (simp add: baselineOK_def commit_def)

lemma writeFrame_cursorRow:
  assumes "baselineOK s" and "writeFrame vw w h newLines s = (None, s')"
  shows "cursorRow s' = int (length (previousLines s')) - 1"
proof (cases "previousLines s = []")
  case True
  with assms(2) have "s' = commit (firstRenderBuffer newLines) newLines w s"
    by (simp add: writeFrame_first)
  then show ?thesis by (simp add: commit_def)
next
  case False
  with assms(1) have cur: "cursorRow s = int (length (previousLines s)) - 1"
    by (simp add: baselineOK_def)
  from assms(2) False have "s' = s \<or> (\<exists>buffer. s' = commit buffer newLines w s)"
    by (auto simp add: writeFrame_def Let_def split: if_splits sum.splits)
  with cur show ?thesis by (auto simp add: commit_def)
qed

lemma writeFrame_baselineOK:
  "baselineOK s \<Longrightarrow> baselineOK (snd (writeFrame vw w h newLines s))"
  by (auto simp add: writeFrame_def Let_def baselineOK_commit split: sum.splits)

lemma doRender_baselineOK: "baselineOK s \<Longrightarrow> baselineOK (snd (doRender e w h s))"
  by (auto simp add: doRender_def writeFrame_baselineOK split: sum.splits)

lemma baselineOK_renderRequested [simp]:
  "baselineOK (s\<lparr>renderRequested := r\<rparr>) = baselineOK s"
  by (simp add: baselineOK_def)

lemma step_baselineOK: "baselineOK s \<Longrightarrow> baselineOK (snd (step ev s))"
proof (cases ev)
  case (Tick e w h)
  assume "baselineOK s"
  then have "baselineOK (snd (doRender e w h (s\<lparr>renderRequested := False\<rparr>)))"
    by (intro doRender_baselineOK) simp
  with \<open>baselineOK s\<close> Tick show ?thesis by (simp add: tick_def)
qed (auto simp add: baselineOK_def addChild_def removeChild_def clear_def setFocus_def
       showModal_def hideModal_def fullRefresh_def requestRender_def Let_def split: option.splits)

lemma run_baselineOK: "baselineOK s \<Longrightarrow> baselineOK (snd (run evs s))"
proof (induction evs arbitrary: s)
  case Nil
  then show ?case by simp
next
  case (Cons ev evs)
  from Cons.prems have ok: "baselineOK (snd (step ev s))" by (rule step_baselineOK)
  obtain r s1 where st: "step ev s = (r, s1)" by (cases "step ev s")
  show ?case
  proof (cases r)
    case None
    with st ok Cons.IH [of s1] show ?thesis by simp
  next
    case (Some err)
    with st ok show ?thesis by simp
  qed
qed

lemma run_append:
  "run (xs @ ys) s = (case run xs s of (Some err, s') \<Rightarrow> (Some err, s') | (None, s') \<Rightarrow> run ys s')"
proof (induction xs arbitrary: s)
  case Nil
  show ?case by simp
next
  case (Cons x xs)
  obtain r s1 where st: "step x s = (r, s1)" by (cases "step x s")
  show ?case using st Cons.IH [of s1] by (cases r) simp_all
qed

section \<open>The render pass: claims\<close>

text \<open>
  Claim C1, as amended. A render pass whose previous frame is longer than the new frame never
  reaches the incremental update: the differing line count selects the full reset. The
  single write is the begin marker, CSI 3J, CSI 2J, CSI H, the whole new frame with
  \<^verbatim>\<open>"\r\n"\<close> between lines, and the end marker; \<open>cursorRow\<close> becomes the index of the new
  frame's last line, and the new frame and width become the baseline.
\<close>

theorem shrinking_frame_full_reset:
  assumes "computeFrame e w h s = Inr newLines"
    and "length newLines < length (previousLines s)"
  shows "doRender e w h s =
     (None, s\<lparr>written := written s @
                  [syncBegin @ (ESC # ''[3J'') @ (ESC # ''[2J'') @ (ESC # ''[H'')
                   @ emitLines 0 newLines [] @ syncEnd],
               cursorRow := int (length newLines) - 1,
               previousLines := newLines, previousWidth := w\<rparr>)"
proof -
  from assms(2) have "previousLines s \<noteq> []" and "length (previousLines s) \<noteq> length newLines"
    by auto
  then have "writeFrame (visibleWidth e) w h newLines s =
      (None, commit (fullResetBuffer newLines) newLines w s)"
    by (rule writeFrame_lineCountChanged)
  with assms(1) show ?thesis
    by (simp add: doRender_def commit_def fullResetBuffer_shape clearAll_def)
qed

text \<open>
  The example of the specification, five lines shrinking to three at an unchanged width of
  80 columns.
\<close>

theorem shrinking_frame_full_reset_witness:
  "computeFrame (linesEnv [''x'', ''y'', ''z'']) 80 24 (rendered [''a'', ''b'', ''c'', ''d'', ''e''] 80)
     = Inr [''x'', ''y'', ''z'']
   \<and> length [''x'', ''y'', ''z''] < length (previousLines (rendered [''a'', ''b'', ''c'', ''d'', ''e''] 80))
   \<and> doRender (linesEnv [''x'', ''y'', ''z'']) 80 24 (rendered [''a'', ''b'', ''c'', ''d'', ''e''] 80)
     = (None, (rendered [''x'', ''y'', ''z''] 80)
          \<lparr>written := [syncBegin @ clearAll @ ''x'' @ CRLF @ ''y'' @ CRLF @ ''z'' @ syncEnd]\<rparr>)"
proof -
  have a: "computeFrame (linesEnv [''x'', ''y'', ''z'']) 80 24 (rendered [''a'', ''b'', ''c'', ''d'', ''e''] 80)
     = Inr [''x'', ''y'', ''z'']"
    by (simp add: ex_defs)
  have b: "length [''x'', ''y'', ''z''] < length (previousLines (rendered [''a'', ''b'', ''c'', ''d'', ''e''] 80))"
    by (simp add: rendered_def)
  show ?thesis
    using a b shrinking_frame_full_reset [OF a b]
    by (simp add: rendered_def clearAll_def CRLF_def)
qed

text \<open>
  The same pass against the patch that clears orphaned lines and walks the cursor back:
  what is written contains neither a line clear (CSI 2K) nor a cursor-up by two (CSI 2A),
  which the incremental buffer for these frames would hold.
\<close>

theorem shrinking_frame_counterexample:
  "written (snd (doRender (linesEnv [''x'', ''y'', ''z'']) 80 24
                   (rendered [''a'', ''b'', ''c'', ''d'', ''e''] 80)))
     = [syncBegin @ clearAll @ ''x'' @ CRLF @ ''y'' @ CRLF @ ''z'' @ syncEnd]
   \<and> \<not> stringIncludes (syncBegin @ clearAll @ ''x'' @ CRLF @ ''y'' @ CRLF @ ''z'' @ syncEnd) clearLine
   \<and> \<not> stringIncludes (syncBegin @ clearAll @ ''x'' @ CRLF @ ''y'' @ CRLF @ ''z'' @ syncEnd) (cursorUp 2)
   \<and> incrementalBuffer length 80 [''a'', ''b'', ''c'', ''d'', ''e''] [''x'', ''y'', ''z''] 4 0
     = Inr (syncBegin @ cursorUp 4 @ CR @ clearLine @ ''x'' @ CRLF @ clearLine @ ''y''
            @ CRLF @ clearLine @ ''z'' @ CRLF @ clearLine @ CRLF @ clearLine @ cursorUp 2 @ syncEnd)"
  by (simp add: ex_defs doRender_def writeFrame_def commit_def fullResetBuffer_def
      incrementalBuffer_def containsImage_def ctl_defs)

text \<open>
  The incremental update checks every line it rewrites. In a render pass that reaches it
  (non-empty baseline, unchanged width and line count, first changed line \<open>fc\<close> not above
  the viewport), if line \<open>i \<ge> fc\<close> is the first rewritten line that is not an image line
  and whose visible width exceeds the render width, the pass throws at that line: nothing
  is written and the state keeps its values.
\<close>

lemma incremental_too_wide_aborts:
  assumes "computeFrame e w h s = Inr newLines"
    and "previousLines s \<noteq> []"
    and "previousWidth s = 0 \<or> previousWidth s = w"
    and "length newLines = length (previousLines s)"
    and "fc < length newLines"
    and "previousLines s ! fc \<noteq> newLines ! fc"
    and "\<forall>j<fc. previousLines s ! j = newLines ! j"
    and "\<not> int fc < cursorRow s - h + 1"
    and "fc \<le> i" and "i < length newLines"
    and "tooWide (visibleWidth e) w (newLines ! i)"
    and "\<forall>j. fc \<le> j \<and> j < i \<longrightarrow> \<not> tooWide (visibleWidth e) w (newLines ! j)"
  shows "doRender e w h s = (Some (LineTooWide i), s)"
proof -
  have "findFirstChanged (previousLines s) newLines = int fc"
    using assms(4-7) by (intro findFirstChanged_least) (simp_all add: lineAt_nth)
  with assms(2-4,8) have wf: "writeFrame (visibleWidth e) w h newLines s =
      (case incrementalBuffer (visibleWidth e) w (previousLines s) newLines (cursorRow s) fc of
         Inl err \<Rightarrow> (Some err, s)
       | Inr buffer \<Rightarrow> (None, commit buffer newLines w s))"
    by (intro writeFrame_incremental) simp_all
  have "rewriteLines (visibleWidth e) w fc fc (drop fc newLines) b = Inl (LineTooWide (fc + (i - fc)))" for b
    using assms(5,9-12) by (intro rewriteLines_throws) simp_all
  then have "incrementalBuffer (visibleWidth e) w (previousLines s) newLines (cursorRow s) fc
      = Inl (LineTooWide i)"
    using assms(9) by (simp add: incrementalBuffer_def Let_def)
  with wf assms(1) show ?thesis by (simp add: doRender_def)
qed

text \<open>
  A line of visible width 81 at render width 80, replacing line 1 of a two-line frame.
\<close>

lemma incremental_too_wide_example:
  "computeFrame (linesEnv [''a'', wideLine]) 80 24 (rendered [''a'', ''b''] 80)
     = Inr [''a'', wideLine]
   \<and> tooWide (visibleWidth (linesEnv [''a'', wideLine])) 80 (wideLine)
   \<and> \<not> int 1 < cursorRow (rendered [''a'', ''b''] 80) - 24 + 1
   \<and> doRender (linesEnv [''a'', wideLine]) 80 24 (rendered [''a'', ''b''] 80)
     = (Some (LineTooWide 1), rendered [''a'', ''b''] 80)"
proof -
  let ?s = "rendered [''a'', ''b''] 80"
  let ?new = "[''a'', wideLine]"
  let ?e = "linesEnv ?new"
  have a: "computeFrame ?e 80 24 ?s = Inr ?new"
    and b: "previousLines ?s \<noteq> []"
    and c: "previousWidth ?s = 0 \<or> previousWidth ?s = 80"
    and d: "length ?new = length (previousLines ?s)"
    and e: "1 < length ?new"
    and f: "previousLines ?s ! 1 \<noteq> ?new ! 1"
    and g: "\<forall>j<1. previousLines ?s ! j = ?new ! j"
    and h: "\<not> int 1 < cursorRow ?s - 24 + 1"
    and i: "(1::nat) \<le> 1"
    and j: "tooWide (visibleWidth ?e) 80 (?new ! 1)"
    and k: "\<forall>j. 1 \<le> j \<and> j < 1 \<longrightarrow> \<not> tooWide (visibleWidth ?e) 80 (?new ! j)"
    using wideLine_facts by (simp_all add: ex_defs tooWide_def)
  show ?thesis
    using a j h incremental_too_wide_aborts [OF a b c d e f g h i e j k]
    by simp
qed

text \<open>
  Claim C3, evaluated on the code at inputs where it fails. The new frame holds a line that
  is not an image line and has visible width 81, at render width 80. The first render
  after construction does not abort: it writes the frame between the markers and commits
  it as the baseline. A full reset (here by a changed line count) does not abort either:
  it writes the clearing sequence and the frame, and commits. Neither branch makes the
  width check that the incremental update makes on the lines it writes.
\<close>

theorem unchecked_too_wide_line_is_written:
  "\<not> containsImage wideLine
   \<and> int (visibleWidth (linesEnv [wideLine]) wideLine) > 80
   \<and> computeFrame (linesEnv [wideLine]) 80 24 (addChild 0 initial) = Inr [wideLine]
   \<and> doRender (linesEnv [wideLine]) 80 24 (addChild 0 initial)
       = (None, (rendered [wideLine] 80)\<lparr>written := [syncBegin @ wideLine @ syncEnd]\<rparr>)
   \<and> computeFrame (linesEnv [wideLine, ''c'']) 80 24 (rendered [''a''] 80)
       = Inr [wideLine, ''c'']
   \<and> doRender (linesEnv [wideLine, ''c'']) 80 24 (rendered [''a''] 80)
       = (None, (rendered [wideLine, ''c''] 80)
            \<lparr>written := [syncBegin @ clearAll @ wideLine @ CRLF @ ''c'' @ syncEnd]\<rparr>)"
  using wideLine_facts
  by (simp add: ex_defs addChild_def initial_def doRender_def writeFrame_def commit_def
      firstRenderBuffer_def fullResetBuffer_def ctl_defs)

text \<open>
  Claim C4, as amended. In a render pass whose baseline frame is not empty, at a terminal
  width equal to the previous width and with a new frame equal to the previous frame,
  nothing is written and the state is unchanged, for every \<open>cursorRow\<close> and every terminal
  height: the test for "no changed line" precedes the viewport test.
\<close>

theorem unchanged_frame_writes_nothing:
  assumes "previousLines s \<noteq> []"
    and "previousWidth s = w"
    and "computeFrame e w h s = Inr (previousLines s)"
  shows "doRender e w h s = (None, s)"
  using assms by (simp add: doRender_def writeFrame_unchanged)

text \<open>
  Three unchanged lines on a terminal two rows high, so that
  \<open>cursorRow - height + 1 = 1 > -1\<close>.
\<close>

theorem unchanged_frame_writes_nothing_witness:
  "previousLines (rendered [''a'', ''b'', ''c''] 80) \<noteq> []
   \<and> previousWidth (rendered [''a'', ''b'', ''c''] 80) = 80
   \<and> cursorRow (rendered [''a'', ''b'', ''c''] 80) - 2 + 1 > -1
   \<and> computeFrame (linesEnv [''a'', ''b'', ''c'']) 80 2 (rendered [''a'', ''b'', ''c''] 80)
       = Inr (previousLines (rendered [''a'', ''b'', ''c''] 80))
   \<and> doRender (linesEnv [''a'', ''b'', ''c'']) 80 2 (rendered [''a'', ''b'', ''c''] 80)
       = (None, rendered [''a'', ''b'', ''c''] 80)
   \<and> written (snd (doRender (linesEnv [''a'', ''b'', ''c'']) 80 2 (rendered [''a'', ''b'', ''c''] 80))) = []"
proof -
  have a: "previousLines (rendered [''a'', ''b'', ''c''] 80) \<noteq> []"
    and b: "previousWidth (rendered [''a'', ''b'', ''c''] 80) = 80"
    and c: "computeFrame (linesEnv [''a'', ''b'', ''c'']) 80 2 (rendered [''a'', ''b'', ''c''] 80)
       = Inr (previousLines (rendered [''a'', ''b'', ''c''] 80))"
    by (simp_all add: ex_defs)
  show ?thesis
    using a b c unchanged_frame_writes_nothing [OF a b c] by (simp add: rendered_def)
qed

text \<open>
  An empty baseline frame is outside that statement. After a first render of an empty
  frame at width 80, a second pass at the same width with the same empty frame is a first
  render again and writes the two markers.
\<close>

theorem unchanged_empty_frame_counterexample:
  "run [AddChild 0, RequestRender, Tick (linesEnv []) 80 24] initial
     = (None, (rendered [] 80)\<lparr>written := [syncBegin @ syncEnd]\<rparr>)
   \<and> previousWidth ((rendered [] 80)\<lparr>written := [syncBegin @ syncEnd]\<rparr>) = 80
   \<and> computeFrame (linesEnv []) 80 24 ((rendered [] 80)\<lparr>written := [syncBegin @ syncEnd]\<rparr>)
     = Inr (previousLines ((rendered [] 80)\<lparr>written := [syncBegin @ syncEnd]\<rparr>))
   \<and> doRender (linesEnv []) 80 24 ((rendered [] 80)\<lparr>written := [syncBegin @ syncEnd]\<rparr>)
     = (None, (rendered [] 80)\<lparr>written := [syncBegin @ syncEnd, syncBegin @ syncEnd]\<rparr>)
   \<and> written (snd (doRender (linesEnv []) 80 24
                     ((rendered [] 80)\<lparr>written := [syncBegin @ syncEnd]\<rparr>)))
     \<noteq> written ((rendered [] 80)\<lparr>written := [syncBegin @ syncEnd]\<rparr>)"
  by (simp add: ex_defs addChild_def initial_def requestRender_def tick_def doRender_def
      writeFrame_def commit_def firstRenderBuffer_def)

text \<open>
  Claim C5. In a render pass past the first render with \<open>cursorRow = L - 1\<close> for the
  previous frame length \<open>L\<close>, when the smallest index \<open>i\<close> at which old and new frame
  differ (a missing line read as empty) satisfies \<open>i < (L - 1) - H + 1\<close> for the terminal
  height \<open>H\<close>, the single write is the full reset (begin marker, CSI 3J, CSI 2J, CSI H,
  the whole new frame, end marker) and \<open>cursorRow\<close> becomes the new frame's last index.
\<close>

theorem change_above_viewport_full_reset:
  assumes "computeFrame e w h s = Inr newLines"
    and "previousLines s \<noteq> []"
    and "cursorRow s = int (length (previousLines s)) - 1"
    and "lineAt (previousLines s) i \<noteq> lineAt newLines i"
    and "\<forall>j<i. lineAt (previousLines s) j = lineAt newLines j"
    and "int i < (int (length (previousLines s)) - 1) - h + 1"
  shows "doRender e w h s =
     (None, s\<lparr>written := written s @
                  [syncBegin @ (ESC # ''[3J'') @ (ESC # ''[2J'') @ (ESC # ''[H'')
                   @ emitLines 0 newLines [] @ syncEnd],
               cursorRow := int (length newLines) - 1,
               previousLines := newLines, previousWidth := w\<rparr>)"
proof -
  have "i < max (length newLines) (length (previousLines s))"
    using assms(4) by (rule lineAt_differ_bound)
  then have fc: "findFirstChanged (previousLines s) newLines = int i"
    using assms(4,5) by (rule findFirstChanged_least)
  then have "findFirstChanged (previousLines s) newLines \<noteq> -1"
    and "findFirstChanged (previousLines s) newLines < cursorRow s - h + 1"
    using assms(3,6) by simp_all
  with assms(2) have "writeFrame (visibleWidth e) w h newLines s =
      (None, commit (fullResetBuffer newLines) newLines w s)"
    by (rule writeFrame_aboveViewport)
  with assms(1) show ?thesis
    by (simp add: doRender_def commit_def fullResetBuffer_shape clearAll_def)
qed

text \<open>
  Five lines on a terminal three rows high; line 0 changes and the viewport starts at line 2.
\<close>

theorem change_above_viewport_full_reset_witness:
  "computeFrame (linesEnv [''X'', ''b'', ''c'', ''d'', ''e'']) 80 3 (rendered [''a'', ''b'', ''c'', ''d'', ''e''] 80)
     = Inr [''X'', ''b'', ''c'', ''d'', ''e'']
   \<and> lineAt [''a'', ''b'', ''c'', ''d'', ''e''] 0 \<noteq> lineAt [''X'', ''b'', ''c'', ''d'', ''e''] 0
   \<and> int 0 < (int (length [''a'', ''b'', ''c'', ''d'', ''e'']) - 1) - 3 + 1
   \<and> doRender (linesEnv [''X'', ''b'', ''c'', ''d'', ''e'']) 80 3 (rendered [''a'', ''b'', ''c'', ''d'', ''e''] 80)
     = (None, (rendered [''X'', ''b'', ''c'', ''d'', ''e''] 80)
          \<lparr>written := [syncBegin @ clearAll @ ''X'' @ CRLF @ ''b'' @ CRLF @ ''c'' @ CRLF @ ''d''
                        @ CRLF @ ''e'' @ syncEnd]\<rparr>)"
proof -
  let ?s = "rendered [''a'', ''b'', ''c'', ''d'', ''e''] 80"
  let ?new = "[''X'', ''b'', ''c'', ''d'', ''e'']"
  have a: "computeFrame (linesEnv ?new) 80 3 ?s = Inr ?new"
    and b: "previousLines ?s \<noteq> []"
    and c: "cursorRow ?s = int (length (previousLines ?s)) - 1"
    and e: "lineAt (previousLines ?s) 0 \<noteq> lineAt ?new 0"
    and f: "\<forall>j<0. lineAt (previousLines ?s) j = lineAt ?new j"
    and g: "int 0 < (int (length (previousLines ?s)) - 1) - 3 + 1"
    by (simp_all add: ex_defs lineAt_def)
  show ?thesis
    using a e g change_above_viewport_full_reset [OF a b c e f g]
    by (simp add: rendered_def clearAll_def CRLF_def lineAt_def)
qed

text \<open>
  Claim C6. In every run of an orchestrator from its construction, after every render
  pass that does not throw, \<open>cursorRow\<close> equals the length of \<open>previousLines\<close> minus one.
  The branches that commit a baseline (first render, full reset, incremental update) assign
  both together; the branch without a change keeps a baseline for which the equality
  already held.
\<close>

theorem cursorRow_after_every_render:
  assumes "run evs initial = (None, s)"
    and "renderRequested s"
    and "run (evs @ [Tick e w h]) initial = (None, s')"
  shows "cursorRow s' = int (length (previousLines s')) - 1"
proof -
  have "baselineOK (snd (run evs initial))"
    using baselineOK_initial by (rule run_baselineOK)
  with assms(1) have ok: "baselineOK (s\<lparr>renderRequested := False\<rparr>)" by simp
  from assms have "tick e w h s = (None, s')"
    by (simp add: run_append split: prod.splits option.splits)
  then have "doRender e w h (s\<lparr>renderRequested := False\<rparr>) = (None, s')"
    by (simp add: tick_def)
  then have "writeFrame (visibleWidth e) w h newLines (s\<lparr>renderRequested := False\<rparr>) = (None, s')"
    if "computeFrame e w h (s\<lparr>renderRequested := False\<rparr>) = Inr newLines" for newLines
    using that by (simp add: doRender_def)
  moreover from \<open>doRender e w h (s\<lparr>renderRequested := False\<rparr>) = (None, s')\<close>
  obtain newLines where "computeFrame e w h (s\<lparr>renderRequested := False\<rparr>) = Inr newLines"
    by (auto simp add: doRender_def split: sum.splits)
  ultimately show ?thesis using ok writeFrame_cursorRow by blast
qed

text \<open>
  A first render of two lines, then an incremental update of the second line.
\<close>

theorem cursorRow_after_every_render_witness:
  "run [AddChild 0, RequestRender, Tick (linesEnv [''a'', ''b'']) 80 24, RequestRender] initial
      = (None, (rendered [''a'', ''b''] 80)
           \<lparr>renderRequested := True, written := [syncBegin @ ''a'' @ CRLF @ ''b'' @ syncEnd]\<rparr>)
   \<and> run ([AddChild 0, RequestRender, Tick (linesEnv [''a'', ''b'']) 80 24, RequestRender]
           @ [Tick (linesEnv [''a'', ''c'']) 80 24]) initial
      = (None, (rendered [''a'', ''c''] 80)
           \<lparr>written := [syncBegin @ ''a'' @ CRLF @ ''b'' @ syncEnd,
                        syncBegin @ CR @ clearLine @ ''c'' @ syncEnd]\<rparr>)
   \<and> cursorRow ((rendered [''a'', ''c''] 80)
           \<lparr>written := [syncBegin @ ''a'' @ CRLF @ ''b'' @ syncEnd,
                        syncBegin @ CR @ clearLine @ ''c'' @ syncEnd]\<rparr>) = 1"
proof -
  let ?evs = "[AddChild 0, RequestRender, Tick (linesEnv [''a'', ''b'']) 80 24, RequestRender]"
  let ?s = "(rendered [''a'', ''b''] 80)
           \<lparr>renderRequested := True, written := [syncBegin @ ''a'' @ CRLF @ ''b'' @ syncEnd]\<rparr>"
  let ?s' = "(rendered [''a'', ''c''] 80)
           \<lparr>written := [syncBegin @ ''a'' @ CRLF @ ''b'' @ syncEnd,
                        syncBegin @ CR @ clearLine @ ''c'' @ syncEnd]\<rparr>"
  have a: "run ?evs initial = (None, ?s)"
    by (simp add: initial_def addChild_def requestRender_def tick_def ex_defs doRender_def
        writeFrame_def commit_def firstRenderBuffer_def ctl_defs)
  have b: "renderRequested ?s" by simp
  have c: "run (?evs @ [Tick (linesEnv [''a'', ''c'']) 80 24]) initial = (None, ?s')"
    by (simp add: initial_def addChild_def requestRender_def tick_def ex_defs doRender_def
        writeFrame_def commit_def firstRenderBuffer_def incrementalBuffer_def containsImage_def
        findFirstChanged_def firstChangedStep_def lineAt_def ctl_defs)
  show ?thesis
    using a c cursorRow_after_every_render [OF a b c] by (simp add: rendered_def)
qed



section \<open>The overlay loop of the modal compositor\<close>

lemma overlayRow_length [simp]:
  "length (overlayRow e d ml r0 c0 tw th result i) = length result"
  by (simp add: overlayRow_def Let_def)

lemma overlay_fold_length:
  "length (foldl (overlayRow e d ml r0 c0 tw th) result [0..<n]) = length result"
  by (induction n) simp_all

lemma overlay_fold_nth:
  assumes "0 \<le> r0" and "k < length d"
  shows "foldl (overlayRow e d ml r0 c0 tw th) d [0..<n] ! k =
           (if r0 \<le> int k \<and> int k < r0 + int n \<and> int k < th
            then overlayLineAt e (d ! k) (ml ! (k - nat r0)) c0 tw
            else d ! k)"
proof (induction n)
  case 0
  have "\<not> (r0 \<le> int k \<and> int k < r0 + int 0 \<and> int k < th)" by simp
  then show ?case by (simp only: if_False upt_0 foldl_Nil)
next
  case (Suc n)
  let ?R = "foldl (overlayRow e d ml r0 c0 tw th) d [0..<n]"
  have len: "k < length ?R" using assms(2) by (simp only: overlay_fold_length)
  have step: "foldl (overlayRow e d ml r0 c0 tw th) d [0..<Suc n] = overlayRow e d ml r0 c0 tw th ?R n"
    by simp
  show ?case
  proof (cases "int k = r0 + int n")
    case True
    have kn: "k - nat r0 = n" using True assms(1) by arith
    have rowk: "nat (r0 + int n) = k" using True by arith
    show ?thesis
    proof (cases "int k < th")
      case lt: True
      have "0 \<le> r0 + int n" "r0 + int n < th" using True lt assms(1) by arith+
      then have "overlayRow e d ml r0 c0 tw th ?R n = ?R[k := overlayLineAt e (d ! k) (ml ! n) c0 tw]"
        by (simp add: overlayRow_def Let_def rowk)
      then have val: "overlayRow e d ml r0 c0 tw th ?R n ! k = overlayLineAt e (d ! k) (ml ! n) c0 tw"
        using len by (simp only: nth_list_update_eq)
      have cond: "r0 \<le> int k \<and> int k < r0 + int (Suc n) \<and> int k < th"
        using True lt assms(1) by arith
      show ?thesis using cond by (simp only: step val kn if_True simp_thms)
    next
      case nlt: False
      have "\<not> r0 + int n < th" using True nlt by arith
      then have same: "overlayRow e d ml r0 c0 tw th ?R n = ?R"
        by (simp add: overlayRow_def Let_def)
      have old: "?R ! k = d ! k" using Suc.IH nlt by simp
      have cond: "\<not> (r0 \<le> int k \<and> int k < r0 + int (Suc n) \<and> int k < th)"
        using nlt by simp
      show ?thesis using cond by (simp only: step same old if_False simp_thms)
    qed
  next
    case False
    have neq: "nat (r0 + int n) \<noteq> k" using False assms(1) by arith
    have untouched: "overlayRow e d ml r0 c0 tw th ?R n ! k = ?R ! k"
      using neq by (simp add: overlayRow_def Let_def)
    have condeq: "(int k < r0 + int (Suc n)) = (int k < r0 + int n)"
      using False by arith
    show ?thesis by (simp only: step untouched Suc.IH condeq)
  qed
qed

lemma compositeModal_rows:
  assumes "0 \<le> tw"
    and mw: "modalWidth = (case optWidth (options m) of Some x \<Rightarrow> x | None \<Rightarrow> min 60 (tw - 10))"
    and ml: "modalLines = map (\<lambda>line. padToWidth e line modalWidth)
                            (componentRender e (component m) modalWidth)"
    and sr: "startRow = max 0 ((th - int (length modalLines)) div 2)"
    and sc: "startCol = max 0 ((tw - modalWidth) div 2)"
    and pb: "paddedBg = background @
               replicate (nat (th - int (length background))) (replicate (nat tw) CHR '' '')"
    and db: "dimmedBg = (if dimBackground (options m) \<noteq> Some False
                         then map (dimLine e) paddedBg else paddedBg)"
  shows "\<exists>result. compositeModal e (Some m) background tw th = Inr result
              \<and> length result = length dimmedBg
              \<and> (\<forall>k<length result. result ! k =
                    (if startRow \<le> int k \<and> int k < startRow + int (length modalLines) \<and> int k < th
                     then overlayLineAt e (dimmedBg ! k) (modalLines ! (k - nat startRow)) startCol tw
                     else dimmedBg ! k))"
proof -
  define result where "result = foldl (overlayRow e dimmedBg modalLines startRow startCol tw th)
                       dimmedBg [0..<length modalLines]"
  have cm: "compositeModal e (Some m) background tw th = Inr result"
    using assms(1)
    unfolding compositeModal_def result_def db pb sc sr ml mw
    by (simp add: Let_def)
  have len: "length result = length dimmedBg"
    unfolding result_def by (rule overlay_fold_length)
  have "0 \<le> startRow" by (simp add: sr)
  then have nth: "result ! k =
        (if startRow \<le> int k \<and> int k < startRow + int (length modalLines) \<and> int k < th
         then overlayLineAt e (dimmedBg ! k) (modalLines ! (k - nat startRow)) startCol tw
         else dimmedBg ! k)" if "k < length result" for k
    using that len unfolding result_def by (intro overlay_fold_nth) simp_all
  show ?thesis
  proof (intro exI conjI allI impI)
    show "compositeModal e (Some m) background tw th = Inr result" by (rule cm)
    show "length result = length dimmedBg" by (rule len)
    show "result ! k =
        (if startRow \<le> int k \<and> int k < startRow + int (length modalLines) \<and> int k < th
         then overlayLineAt e (dimmedBg ! k) (modalLines ! (k - nat startRow)) startCol tw
         else dimmedBg ! k)" if "k < length result" for k
      using that by (rule nth)
  qed
qed

section \<open>Modal compositing: claims\<close>

text \<open>
  Claim C7. On a terminal of non-negative width, compositing an active modal succeeds. The
  modal content width is \<open>options.width\<close> when given and \<open>min 60 (terminalWidth - 10)\<close>
  otherwise; the component is rendered at that width and its lines padded to it. With
  \<open>startRow = max 0 ((terminalHeight - modalHeight) div 2)\<close> and
  \<open>startCol = max 0 ((terminalWidth - modalWidth) div 2)\<close>, row \<open>k\<close> of the result is the
  overlay of modal line \<open>k - startRow\<close> at column \<open>startCol\<close> on the (padded, dimmed)
  background row when \<open>startRow \<le> k < startRow + modalHeight\<close> and \<open>k < terminalHeight\<close>,
  and the background row itself otherwise.
\<close>

theorem compositeModal_centered:
  assumes "0 \<le> tw"
  shows "let modalWidth = (case optWidth (options m) of Some x \<Rightarrow> x | None \<Rightarrow> min 60 (tw - 10));
             modalLines = map (\<lambda>line. padToWidth e line modalWidth)
                            (componentRender e (component m) modalWidth);
             startRow = max 0 ((th - int (length modalLines)) div 2);
             startCol = max 0 ((tw - modalWidth) div 2);
             paddedBg = background @
               replicate (nat (th - int (length background))) (replicate (nat tw) CHR '' '');
             dimmedBg = (if dimBackground (options m) \<noteq> Some False
                         then map (dimLine e) paddedBg else paddedBg)
         in \<exists>result. compositeModal e (Some m) background tw th = Inr result
              \<and> length result = length dimmedBg
              \<and> (\<forall>k<length result. result ! k =
                    (if startRow \<le> int k \<and> int k < startRow + int (length modalLines) \<and> int k < th
                     then overlayLineAt e (dimmedBg ! k) (modalLines ! (k - nat startRow)) startCol tw
                     else dimmedBg ! k))"
  unfolding Let_def by (rule compositeModal_rows [OF assms refl refl refl refl refl refl])

text \<open>
  A modal of content width 10 and height 3 on a terminal of 40 columns and 10 rows: rows 3
  to 5 carry the modal lines from column 15 on.
\<close>

theorem compositeModal_centered_witness:
  "(0::int) \<le> 40
   \<and> max 0 ((10 - int (length [''0123456789'', ''abcdefghij'', ''ABCDEFGHIJ''])) div 2) = 3
   \<and> max 0 ((40 - 10) div 2) = (15::int)
   \<and> compositeModal boxEnv (Some boxModal) [''bg''] 40 10 =
       Inr [''bg'',
            replicate 40 CHR '' '',
            replicate 40 CHR '' '',
            replicate 15 CHR '' '' @ ''0123456789'' @ replicate 15 CHR '' '',
            replicate 15 CHR '' '' @ ''abcdefghij'' @ replicate 15 CHR '' '',
            replicate 15 CHR '' '' @ ''ABCDEFGHIJ'' @ replicate 15 CHR '' '',
            replicate 40 CHR '' '',
            replicate 40 CHR '' '',
            replicate 40 CHR '' '',
            replicate 40 CHR '' '']"
proof -
  have w: "(0::int) \<le> 40" by simp
  have cm: "compositeModal boxEnv (Some boxModal) [''bg''] 40 10 =
       Inr [''bg'',
            replicate 40 CHR '' '',
            replicate 40 CHR '' '',
            replicate 15 CHR '' '' @ ''0123456789'' @ replicate 15 CHR '' '',
            replicate 15 CHR '' '' @ ''abcdefghij'' @ replicate 15 CHR '' '',
            replicate 15 CHR '' '' @ ''ABCDEFGHIJ'' @ replicate 15 CHR '' '',
            replicate 40 CHR '' '',
            replicate 40 CHR '' '',
            replicate 40 CHR '' '',
            replicate 40 CHR '' '']"
    by (simp add: compositeModal_def boxEnv_def boxModal_def linesEnv_def overlayRow_def
        Let_def numeral_eq_Suc)
  from compositeModal_centered [OF w, where e = boxEnv and m = boxModal and th = 10
        and background = "[''bg'']"]
  have "\<exists>result. compositeModal boxEnv (Some boxModal) [''bg''] 40 10 = Inr result"
    unfolding Let_def by blast
  with w cm show ?thesis by simp
qed

section \<open>Modal focus\<close>

lemma focus_requestRender [simp]: "focusedComponent (requestRender s) = focusedComponent s"
  by (simp add: requestRender_def)

lemma modal_requestRender [simp]: "modalState (requestRender s) = modalState s"
  by (simp add: requestRender_def)

lemma showModal_focus [simp]: "focusedComponent (showModal c opts s) = Some c"
  by (simp add: showModal_def setFocus_def)

lemma showModal_previousFocus:
  "\<exists>m. modalState (showModal c opts s) = Some m \<and> previousFocus m = focusedComponent s
        \<and> component m = c"
  by (simp add: showModal_def setFocus_def)

text \<open>With a component focused beforehand, closing the modal gives the focus back to it.\<close>

lemma hideModal_showModal_restores_focus:
  "focusedComponent s = Some c \<Longrightarrow> focusedComponent (hideModal (showModal m opts s)) = Some c"
  by (simp add: hideModal_def showModal_def setFocus_def requestRender_def)

text \<open>
  Claim C2, evaluated on the code at the input where it fails: when no component is
  focused (\<^verbatim>\<open>focusedComponent === null\<close>), \<^verbatim>\<open>showModal(m)\<close> followed by \<^verbatim>\<open>hideModal()\<close>
  leaves the focus on the closed modal \<open>m\<close>, not on \<^verbatim>\<open>null\<close>: the guard
  \<^verbatim>\<open>if (previousFocus)\<close> skips \<^verbatim>\<open>setFocus\<close> for a recorded \<^verbatim>\<open>null\<close>.
\<close>

theorem hideModal_showModal_null_focus:
  "focusedComponent (hideModal (showModal m opts (s\<lparr>focusedComponent := None\<rparr>))) = Some m
   \<and> modalState (hideModal (showModal m opts (s\<lparr>focusedComponent := None\<rparr>))) = None"
  by (simp add: hideModal_def showModal_def setFocus_def requestRender_def)

text \<open>
  Claim C10: \<^verbatim>\<open>showModal(m2)\<close> while the modal \<open>m1\<close> is active records \<open>m1\<close> as the
  previous focus of the new modal state (focus had been moved to \<open>m1\<close>), so the following
  \<^verbatim>\<open>hideModal()\<close> gives the focus to the replaced modal component \<open>m1\<close>, whatever was
  focused before the first \<^verbatim>\<open>showModal\<close>, and no modal is active afterwards.
\<close>

theorem showModal_twice_hideModal:
  "(\<exists>ms. modalState (showModal m2 o2 (showModal m1 o1 s)) = Some ms
          \<and> component ms = m2 \<and> previousFocus ms = Some m1)
   \<and> focusedComponent (hideModal (showModal m2 o2 (showModal m1 o1 s))) = Some m1
   \<and> modalState (hideModal (showModal m2 o2 (showModal m1 o1 s))) = None"
  by (simp add: hideModal_def showModal_def setFocus_def requestRender_def)

text \<open>
  Claim C8: \<^verbatim>\<open>fullRefresh\<close> empties \<open>previousLines\<close>, zeroes \<open>previousWidth\<close> and
  \<open>cursorRow\<close> (the baseline of a freshly constructed orchestrator), writes the sequence
  clearing scrollback and screen and homing the cursor, and leaves the focused component and
  the modal state (component, options, recorded previous focus) as they were.
\<close>

theorem fullRefresh_resets_baseline_only:
  "previousLines (fullRefresh s) = previousLines (initial :: 'c tui)
   \<and> previousLines (fullRefresh s) = []
   \<and> previousWidth (fullRefresh s) = 0
   \<and> cursorRow (fullRefresh s) = 0
   \<and> written (fullRefresh s) = written s @ [(ESC # ''[3J'') @ (ESC # ''[2J'') @ (ESC # ''[H'')]
   \<and> focusedComponent (fullRefresh s) = focusedComponent (s :: 'c tui)
   \<and> modalState (fullRefresh s) = modalState s"
  by (simp add: fullRefresh_def requestRender_def initial_def clearAll_def)

end
